theory Spec2Isabelle
  imports Main
begin

section \<open>The drag-and-drop composable \<open>useDragDrop\<close> (src/composables/drag.ts)\<close>

text \<open>
  The composable keeps its state in closure variables and reacts to three window events.
  The model is a record of those variables and one function per handler, each returning
  the state it leaves behind together with the way it ended: a handler that throws keeps
  the mutations it made before the throw, and the browser goes on to deliver the next
  event to the same closure.
\<close>

subsection \<open>Data\<close>

text \<open>
  An item is any object with an \<open>id\<close>, a string or an integer; the code only ever reads
  \<open>id.toString()\<close>, which is the field \<open>item_id\<close>. The rest of the object is \<open>payload\<close>.
\<close>

record 'a item =
  item_id :: string
  payload :: 'a

text \<open>
  The code copies items and lists with \<open>JSON.parse(JSON.stringify(x))\<close> (lines 33, 88, 180
  and 186). A string or an integer comes back as it was, so the copy of an item has the
  same \<open>item_id\<close>. The rest of the item comes back as its JSON image, which need not be
  the value that went in: \<open>NaN\<close> comes back as \<open>null\<close>, a field that is \<open>undefined\<close> is
  gone, a \<open>Date\<close> comes back as a string. The model takes that image as a function
  \<open>json\<close> on the payload and assumes nothing about it. Items are data that
  \<open>JSON.stringify\<close> accepts (no \<open>BigInt\<close>, no cycle), as line 33 requires of the items the
  composable is created with.
\<close>

definition json_item :: "('a \<Rightarrow> 'a) \<Rightarrow> 'a item \<Rightarrow> 'a item" where
  "json_item json f = f\<lparr>payload := json (payload f)\<rparr>"

definition json_lists :: "('a \<Rightarrow> 'a) \<Rightarrow> 'a item list list \<Rightarrow> 'a item list list" where
  "json_lists json ls = map (map (json_item json)) ls"

text \<open>\<open>interface Preview { list: number; target: number }\<close>\<close>

record preview =
  pv_list :: int
  pv_target :: int

text \<open>
  An element of class \<open>draggify\<close>, as far as the code looks at it: the value of
  \<open>getAttribute('id')\<close>, which is \<open>null\<close> (\<open>None\<close>) or a string.
\<close>

datatype element = Element (getAttribute_id: "string option")

text \<open>
  What a mousedown event carries: \<open>e.target\<close> is not an \<open>HTMLElement\<close>, or it is one and
  \<open>e.target.closest('.draggify')\<close> is \<open>null\<close> or an element.
\<close>

datatype target = NotHTMLElement | HTMLElement "element option"

datatype js_error = TypeError | SyntaxError | NotFoundError

datatype 'a result = Returned 'a | Threw js_error 'a

fun state_of :: "'a result \<Rightarrow> 'a" where
  "state_of (Returned s) = s"
| "state_of (Threw e s) = s"

fun threw :: "'a result \<Rightarrow> bool" where
  "threw (Returned s) = False"
| "threw (Threw e s) = True"

text \<open>
  The closure variables of \<open>useDragDrop\<close>. \<open>lists_value\<close> is \<open>lists.value\<close>;
  \<open>ghost_in_body\<close> says whether the node held in \<open>dragging\<close> has been appended to
  \<open>document.body\<close>; the three listener flags say which handlers are registered on
  \<open>window\<close>. \<open>null\<close> is \<open>None\<close>.
\<close>

record 'a ctrl =
  lists_value :: "'a item list list"
  startingLists :: "'a item list list"
  elem :: "element option"
  dragging :: "element option"
  ghost_in_body :: bool
  originalIndex :: int
  originalListIndex :: int
  targetListIndex :: int
  targetIndex :: int
  originalItem :: "'a item option"
  addedPreview :: "preview option"
  mousedown_listener :: bool
  mousemove_listener :: bool
  mouseup_listener :: bool

subsection \<open>JavaScript array operations\<close>

text \<open>\<open>xs[i]\<close>: \<open>undefined\<close> (\<open>None\<close>) outside \<open>0 .. length - 1\<close>.\<close>

definition js_index :: "'b list \<Rightarrow> int \<Rightarrow> 'b option" where
  "js_index xs i = (if 0 \<le> i \<and> i < int (length xs) then Some (xs ! nat i) else None)"

text \<open>\<open>xs.findIndex(P)\<close>: the first index whose element satisfies \<open>P\<close>, or \<open>-1\<close>.\<close>

fun findIndex_from :: "('b \<Rightarrow> bool) \<Rightarrow> 'b list \<Rightarrow> int \<Rightarrow> int" where
  "findIndex_from P [] i = - 1"
| "findIndex_from P (x # xs) i = (if P x then i else findIndex_from P xs (i + 1))"

definition findIndex :: "('b \<Rightarrow> bool) \<Rightarrow> 'b list \<Rightarrow> int" where
  "findIndex P xs = findIndex_from P xs 0"

text \<open>
  The position \<open>splice\<close> works at: a negative \<open>start\<close> counts from the end and is
  clamped at \<open>0\<close>, a \<open>start\<close> beyond the end is clamped at the length.
\<close>

definition splice_start :: "int \<Rightarrow> nat \<Rightarrow> nat" where
  "splice_start start len =
     (if start < 0 then nat (max (int len + start) 0) else min (nat start) len)"

text \<open>\<open>xs.splice(start, 1)\<close>\<close>

definition splice_remove :: "int \<Rightarrow> 'b list \<Rightarrow> 'b list" where
  "splice_remove start xs =
     (let k = splice_start start (length xs) in take k xs @ drop (Suc k) xs)"

text \<open>\<open>xs.splice(start, 0, x)\<close>\<close>

definition splice_insert :: "int \<Rightarrow> 'b \<Rightarrow> 'b list \<Rightarrow> 'b list" where
  "splice_insert start x xs =
     (let k = splice_start start (length xs) in take k xs @ x # drop k xs)"

subsection \<open>\<open>useDragDrop\<close>: the initial closure\<close>

text \<open>Line 32 wraps \<open>items\<close> itself; line 33 keeps their JSON copy as the baseline.\<close>

definition useDragDrop :: "('a \<Rightarrow> 'a) \<Rightarrow> 'a item list list \<Rightarrow> 'a ctrl" where
  "useDragDrop json items =
     \<lparr> lists_value = items, startingLists = json_lists json items,
       elem = None, dragging = None, ghost_in_body = False,
       originalIndex = - 1, originalListIndex = - 1,
       targetListIndex = - 1, targetIndex = - 1,
       originalItem = None, addedPreview = None,
       mousedown_listener = False, mousemove_listener = False, mouseup_listener = False \<rparr>"

text \<open>
  The function returns the ref \<open>lists\<close> to its caller, who may assign or mutate
  \<open>lists.value\<close>; the closure's other variables are out of the caller's reach.
\<close>

definition caller_assigns :: "'a item list list \<Rightarrow> 'a ctrl \<Rightarrow> 'a ctrl" where
  "caller_assigns v st = st\<lparr>lists_value := v\<rparr>"

subsection \<open>The mousedown listener\<close>

text \<open>\<open>f.id.toString() === el.getAttribute('id')\<close>\<close>

definition matches :: "string option \<Rightarrow> 'a item \<Rightarrow> bool" where
  "matches a f = (a = Some (item_id f))"

text \<open>
  Lines 77-85: the loop over \<open>Object.entries(lists.value)\<close>. It assigns \<open>originalIndex\<close>
  in every round and \<open>originalListIndex\<close> only in the round that finds the item; the
  pair is \<open>(originalIndex, originalListIndex)\<close>.
\<close>

fun find_source :: "string option \<Rightarrow> 'a item list list \<Rightarrow> nat \<Rightarrow> int \<times> int \<Rightarrow> int \<times> int" where
  "find_source a [] i (oi, oli) = (oi, oli)"
| "find_source a (l # ls) i (oi, oli) =
     (let k = findIndex (matches a) l
      in if k \<noteq> - 1 then (k, int i) else find_source a ls (Suc i) (k, oli))"

text \<open>
  Lines 87-91. \<open>lists.value[originalListIndex]\<close> is \<open>undefined\<close> when the index is out of
  range, and reading a property of \<open>undefined\<close> throws a TypeError; an item index out of
  range gives \<open>undefined\<close>, whose \<open>JSON.stringify\<close> is \<open>undefined\<close>, which \<open>JSON.parse\<close>
  rejects with a SyntaxError. \<open>originalItem\<close> is the JSON copy of the item found.
\<close>

definition capture :: "('a \<Rightarrow> 'a) \<Rightarrow> 'a ctrl \<Rightarrow> 'a ctrl result" where
  "capture json st =
     (if originalItem st \<noteq> None then Returned st
      else case js_index (lists_value st) (originalListIndex st) of
             None \<Rightarrow> Threw TypeError st
           | Some l \<Rightarrow>
               (case js_index l (originalIndex st) of
                  None \<Rightarrow> Threw SyntaxError st
                | Some x \<Rightarrow>
                    Returned (st\<lparr> originalItem := Some (json_item json x),
                                  lists_value := (lists_value st)
                                    [nat (originalListIndex st) :=
                                       splice_remove (originalIndex st) l] \<rparr>)))"

definition handleMouseDown :: "('a \<Rightarrow> 'a) \<Rightarrow> target \<Rightarrow> 'a ctrl \<Rightarrow> 'a ctrl result" where
  "handleMouseDown json t st =
     (case t of
        NotHTMLElement \<Rightarrow> Returned st
      | HTMLElement None \<Rightarrow> Returned (st\<lparr>elem := None\<rparr>)
      | HTMLElement (Some el) \<Rightarrow>
          (let st1 = st\<lparr>elem := Some el, dragging := Some el, ghost_in_body := False\<rparr>;
               (oi, oli) = find_source (getAttribute_id el) (lists_value st1) 0
                             (originalIndex st1, originalListIndex st1);
               st2 = st1\<lparr>originalIndex := oi, originalListIndex := oli\<rparr>
           in case capture json st2 of
                Threw e s \<Rightarrow> Threw e s
              | Returned st3 \<Rightarrow>
                  Returned (st3\<lparr> ghost_in_body := True,
                                 mousemove_listener := True,
                                 mouseup_listener := True \<rparr>)))"

subsection \<open>\<open>handleMouseMove\<close>\<close>

text \<open>\<open>!target.getAttribute('id')\<close>: \<open>null\<close> and the empty string are falsy.\<close>

definition no_id :: "string option \<Rightarrow> bool" where
  "no_id a = (a = None \<or> a = Some [])"

text \<open>
  Lines 135-151: the loop that assigns \<open>targetIndex\<close> and \<open>targetListIndex\<close>; the pair
  is \<open>(targetIndex, targetListIndex)\<close>, left as it was when nothing is found.
\<close>

fun find_target :: "string option \<Rightarrow> 'a item list list \<Rightarrow> nat \<Rightarrow> int \<times> int \<Rightarrow> int \<times> int" where
  "find_target a [] i (ti, tli) = (ti, tli)"
| "find_target a (l # ls) i (ti, tli) =
     (if no_id a then (ti, tli)
      else if List.find (matches a) l = None then find_target a ls (Suc i) (ti, tli)
      else (findIndex (matches a) l, int i))"

text \<open>Lines 155-157.\<close>

definition remove_preview :: "'a ctrl \<Rightarrow> 'a ctrl result" where
  "remove_preview st =
     (case addedPreview st of
        None \<Rightarrow> Returned st
      | Some p \<Rightarrow>
          (case js_index (lists_value st) (pv_list p) of
             None \<Rightarrow> Threw TypeError st
           | Some l \<Rightarrow>
               Returned (st\<lparr>lists_value := (lists_value st)
                              [nat (pv_list p) := splice_remove (pv_target p) l]\<rparr>)))"

text \<open>Lines 160-162.\<close>

definition insert_original :: "'a ctrl \<Rightarrow> 'a ctrl result" where
  "insert_original st =
     (case originalItem st of
        None \<Rightarrow> Returned st
      | Some x \<Rightarrow>
          (case js_index (lists_value st) (targetListIndex st) of
             None \<Rightarrow> Threw TypeError st
           | Some l \<Rightarrow>
               Returned (st\<lparr>lists_value := (lists_value st)
                              [nat (targetListIndex st) := splice_insert (targetIndex st) x l]\<rparr>)))"

text \<open>
  The argument is \<open>document.elementFromPoint(e.clientX, e.clientY)?.closest('.draggify')\<close>.
\<close>

definition handleMouseMove :: "element option \<Rightarrow> 'a ctrl \<Rightarrow> 'a ctrl result" where
  "handleMouseMove h st =
     (if dragging st = None then Returned st
      else case h of
             None \<Rightarrow> Returned (st\<lparr>targetIndex := - 1\<rparr>)
           | Some el \<Rightarrow>
               (let (ti, tli) = find_target (getAttribute_id el) (lists_value st) 0
                                  (targetIndex st, targetListIndex st);
                    st1 = st\<lparr>targetIndex := ti, targetListIndex := tli\<rparr>
                in case remove_preview st1 of
                     Threw e s \<Rightarrow> Threw e s
                   | Returned st2 \<Rightarrow>
                       (case insert_original st2 of
                          Threw e s \<Rightarrow> Threw e s
                        | Returned st3 \<Rightarrow>
                            Returned (st3\<lparr>addedPreview :=
                              Some \<lparr>pv_list = targetListIndex st3,
                                    pv_target = targetIndex st3\<rparr>\<rparr>))))"

subsection \<open>\<open>handleMouseUp\<close> and \<open>cleanUp\<close>\<close>

definition cleanUp :: "'a ctrl \<Rightarrow> 'a ctrl" where
  "cleanUp st =
     st\<lparr> originalIndex := - 1, originalListIndex := - 1, addedPreview := None,
         targetListIndex := - 1, targetIndex := - 1, originalItem := None \<rparr>"

text \<open>
  \<open>document.body.removeChild(dragging)\<close> throws a NotFoundError when the node is not a
  child of the body. The rollback assigns the JSON copy of \<open>startingLists\<close> to
  \<open>lists.value\<close> (line 180); the commit assigns the JSON copy of \<open>lists.value\<close> to
  \<open>startingLists\<close> (line 186).
\<close>

definition handleMouseUp :: "('a \<Rightarrow> 'a) \<Rightarrow> 'a ctrl \<Rightarrow> 'a ctrl result" where
  "handleMouseUp json st =
     (if dragging st = None \<or> elem st = None then Returned st
      else if \<not> ghost_in_body st then Threw NotFoundError st
      else
        (let st1 = st\<lparr>dragging := None, ghost_in_body := False\<rparr>;
             st2 = (if targetIndex st1 = - 1
                    then st1\<lparr>lists_value := json_lists json (startingLists st1)\<rparr>
                    else st1\<lparr>startingLists := json_lists json (lists_value st1)\<rparr>)
         in Returned ((cleanUp st2)\<lparr>mousemove_listener := False,
                                     mouseup_listener := False\<rparr>)))"

subsection \<open>Events\<close>

text \<open>
  \<open>onMounted\<close> registers the mousedown listener (lines 60-61); \<open>onUnmounted\<close> removes the
  mousemove and mouseup listeners (lines 55-58). A view mounts once, so one flag stands
  for the anonymous mousedown listener. A window event reaches a handler only while that
  handler is registered.
\<close>

datatype event =
    Mount
  | Unmount
  | MouseDown target
  | MouseMove "element option"
  | MouseUp

fun dispatch :: "('a \<Rightarrow> 'a) \<Rightarrow> event \<Rightarrow> 'a ctrl \<Rightarrow> 'a ctrl result" where
  "dispatch json Mount st = Returned (st\<lparr>mousedown_listener := True\<rparr>)"
| "dispatch json Unmount st =
     Returned (st\<lparr>mousemove_listener := False, mouseup_listener := False\<rparr>)"
| "dispatch json (MouseDown t) st =
     (if mousedown_listener st then handleMouseDown json t st else Returned st)"
| "dispatch json (MouseMove h) st =
     (if mousemove_listener st then handleMouseMove h st else Returned st)"
| "dispatch json MouseUp st =
     (if mouseup_listener st then handleMouseUp json st else Returned st)"

text \<open>The state after a sequence of events, first event first.\<close>

fun run :: "('a \<Rightarrow> 'a) \<Rightarrow> event list \<Rightarrow> 'a ctrl \<Rightarrow> 'a ctrl" where
  "run json [] st = st"
| "run json (e # es) st = run json es (state_of (dispatch json e st))"

text \<open>The states the closure reaches from its creation through events alone.\<close>

inductive reachable :: "('a \<Rightarrow> 'a) \<Rightarrow> 'a item list list \<Rightarrow> 'a ctrl \<Rightarrow> bool"
  for json items where
  reach_init: "reachable json items (useDragDrop json items)"
| reach_step: "reachable json items st \<Longrightarrow> reachable json items (state_of (dispatch json e st))"

subsection \<open>Observations on the List Collection\<close>

text \<open>Some list holds an item whose identifier is \<open>a\<close>.\<close>

definition has_id :: "string \<Rightarrow> 'a item list list \<Rightarrow> bool" where
  "has_id a ls = list_ex (list_ex (\<lambda>f. item_id f = a)) ls"

text \<open>The number of positions, across all lists, that hold an item with identifier \<open>a\<close>.\<close>

definition occurrences :: "string \<Rightarrow> 'a item list list \<Rightarrow> nat" where
  "occurrences a ls = length (filter (\<lambda>f. item_id f = a) (concat ls))"

definition total_items :: "'a item list list \<Rightarrow> nat" where
  "total_items ls = length (concat ls)"

text \<open>The arrangement: which identifier is at which position of which list.\<close>

definition arrangement :: "'a item list list \<Rightarrow> string list list" where
  "arrangement ls = map (map item_id) ls"


text \<open>
  A drag handle bound to the identifier \<open>a\<close>, a pointer-down on it, and a pointer-move
  whose hit-test ends on it.
\<close>

definition handle_of :: "string \<Rightarrow> element" where
  "handle_of a = Element (Some a)"

definition press :: "string \<Rightarrow> event" where
  "press a = MouseDown (HTMLElement (Some (handle_of a)))"

definition hover :: "string \<Rightarrow> event" where
  "hover a = MouseMove (Some (handle_of a))"

text \<open>
  The items of the scenarios: an identifier and nothing else. Their JSON copy is the same
  item, so the scenarios run with \<open>id\<close> for \<open>json\<close>.
\<close>

definition it :: "string \<Rightarrow> unit item" where
  "it a = \<lparr>item_id = a, payload = ()\<rparr>"

text \<open>The collections of the scenarios.\<close>

definition abc :: "unit item list list" where
  "abc = [[it ''A'', it ''B'', it ''C'']]"

definition abc_de :: "unit item list list" where
  "abc_de = [[it ''A'', it ''B'', it ''C''], [it ''D'', it ''E'']]"

text \<open>
  A caller creates the composable on \<open>[[A]]\<close>, the view mounts, and the caller then puts
  \<open>[[A, B]]\<close> into the ref it was given.
\<close>

definition after_caller_push :: "unit ctrl" where
  "after_caller_push =
     caller_assigns [[it ''A'', it ''B'']] (run id [Mount] (useDragDrop id [[it ''A'']]))"

text \<open>\<open>A\<close> has been pressed in \<open>[[A, B, C], [D, E]]\<close> and hovers \<open>D\<close>.\<close>

definition dragging_A_over_D :: "unit ctrl" where
  "dragging_A_over_D = run id [Mount, press ''A'', hover ''D''] (useDragDrop id abc_de)"

text \<open>\<open>A\<close> has been pressed in \<open>[[A, B, C]]\<close>; nothing has been hovered yet.\<close>

definition holding_A :: "unit ctrl" where
  "holding_A = run id [Mount, press ''A''] (useDragDrop id abc)"

text \<open>The composable on \<open>[[A, B, C]]\<close>, mounted.\<close>

definition mounted_abc :: "unit ctrl" where
  "mounted_abc = run id [Mount] (useDragDrop id abc)"

text \<open>\<open>A\<close> has been pressed in \<open>[[A, B, C]]\<close> and hovers \<open>C\<close>.\<close>

definition dragging_A_over_C :: "unit ctrl" where
  "dragging_A_over_C = run id [Mount, press ''A'', hover ''C''] (useDragDrop id abc)"





section \<open>Facts about the handlers\<close>

lemmas js_defs = js_index_def findIndex_def splice_start_def splice_remove_def splice_insert_def
lemmas handler_defs = json_item_def json_lists_def
  useDragDrop_def matches_def capture_def handleMouseDown_def no_id_def
  remove_preview_def insert_original_def handleMouseMove_def cleanUp_def handleMouseUp_def
  handle_of_def press_def hover_def it_def

lemmas scenario_defs = abc_def abc_de_def after_caller_push_def caller_assigns_def
  has_id_def occurrences_def total_items_def

subsection \<open>Searching for an identifier\<close>

lemma findIndex_from_found:
  "list_ex P xs \<Longrightarrow> \<exists>k<length xs. findIndex_from P xs i = i + int k \<and> P (xs ! k)"
proof (induction xs arbitrary: i)
  case Nil
  then show ?case by simp
next
  case (Cons x xs)
  show ?case
  proof (cases "P x")
    case True
    then have "findIndex_from P (x # xs) i = i + int 0 \<and> P ((x # xs) ! 0)" by simp
    then show ?thesis by blast
  next
    case False
    with Cons.prems have "list_ex P xs" by simp
    from Cons.IH [OF this, of "i + 1"] obtain k
      where k: "k < length xs" "findIndex_from P xs (i + 1) = i + 1 + int k" "P (xs ! k)"
      by blast
    with False have "Suc k < length (x # xs) \<and>
        findIndex_from P (x # xs) i = i + int (Suc k) \<and> P ((x # xs) ! Suc k)"
      by simp
    then show ?thesis by blast
  qed
qed

lemma findIndex_from_none: "\<not> list_ex P xs \<Longrightarrow> findIndex_from P xs i = - 1"
  by (induction xs arbitrary: i) auto

lemma matches_Some: "matches (Some a) = (\<lambda>f. item_id f = a)"
  by (auto simp: matches_def fun_eq_iff)

lemma find_source_found:
  "has_id a ls \<Longrightarrow>
   \<exists>j k. find_source (Some a) ls i (oi, oli) = (int k, int (i + j)) \<and>
         j < length ls \<and> k < length (ls ! j) \<and> item_id (ls ! j ! k) = a"
proof (induction ls arbitrary: i oi oli)
  case Nil
  then show ?case by (simp add: has_id_def)
next
  case (Cons l ls)
  show ?case
  proof (cases "list_ex (\<lambda>f. item_id f = a) l")
    case True
    from findIndex_from_found [OF this, of 0] obtain k
      where k: "k < length l" "findIndex_from (\<lambda>f. item_id f = a) l 0 = int k" "item_id (l ! k) = a"
      by auto
    then have "find_source (Some a) (l # ls) i (oi, oli) = (int k, int (i + 0)) \<and>
        0 < length (l # ls) \<and> k < length ((l # ls) ! 0) \<and> item_id ((l # ls) ! 0 ! k) = a"
      by (simp add: findIndex_def matches_Some)
    then show ?thesis by blast
  next
    case False
    with Cons.prems have rest: "has_id a ls" by (simp add: has_id_def)
    from False have none: "findIndex (matches (Some a)) l = - 1"
      by (simp add: findIndex_def matches_Some findIndex_from_none)
    from Cons.IH [OF rest, of "Suc i" "- 1" oli] obtain j k
      where jk: "find_source (Some a) ls (Suc i) (- 1, oli) = (int k, int (Suc i + j))"
        "j < length ls" "k < length (ls ! j)" "item_id (ls ! j ! k) = a"
      by blast
    with none have "find_source (Some a) (l # ls) i (oi, oli) = (int k, int (i + Suc j)) \<and>
        Suc j < length (l # ls) \<and> k < length ((l # ls) ! Suc j) \<and>
        item_id ((l # ls) ! Suc j ! k) = a"
      by simp
    then show ?thesis by blast
  qed
qed

lemma find_source_missing:
  "\<not> has_id a ls \<Longrightarrow>
   find_source (Some a) ls i (oi, oli) = (if ls = [] then oi else - 1, oli)"
proof (induction ls arbitrary: i oi)
  case Nil
  then show ?case by simp
next
  case (Cons l ls)
  then have l: "findIndex (matches (Some a)) l = - 1" and rest: "\<not> has_id a ls"
    by (simp_all add: has_id_def findIndex_def matches_Some findIndex_from_none)
  from Cons.IH [OF rest, of "Suc i" "- 1"] l show ?case by simp
qed

lemma length_concat_update:
  "j < length ls \<Longrightarrow>
   length (concat (ls[j := l'])) + length (ls ! j) = length (concat ls) + length l'"
proof (induction ls arbitrary: j)
  case Nil
  then show ?case by simp
next
  case (Cons l ls)
  then show ?case by (cases j) auto
qed

lemma total_items_after_remove:
  assumes "j < length ls" "k < length (ls ! j)"
  shows "total_items (ls[j := splice_remove (int k) (ls ! j)]) + 1 = total_items ls"
proof -
  have "length (splice_remove (int k) (ls ! j)) + 1 = length (ls ! j)"
    using assms(2) by (simp add: splice_remove_def splice_start_def)
  with length_concat_update [OF assms(1), of "splice_remove (int k) (ls ! j)"]
  show ?thesis by (simp add: total_items_def)
qed

subsection \<open>The JSON copy\<close>

lemma item_id_json_item: "item_id (json_item json f) = item_id f"
  by (simp add: json_item_def)

lemma arrangement_json_lists: "arrangement (json_lists json ls) = arrangement ls"
  by (simp add: arrangement_def json_lists_def item_id_json_item comp_def)


subsection \<open>What a handler leaves untouched\<close>

lemma press_captures:
  assumes idle: "originalItem st = None" and found: "has_id a (lists_value st)"
  shows "\<exists>st' x. handleMouseDown json (HTMLElement (Some (handle_of a))) st = Returned st' \<and>
           originalItem st' = Some x \<and> item_id x = a \<and>
           dragging st' = Some (handle_of a) \<and> elem st' = Some (handle_of a) \<and>
           ghost_in_body st' \<and> mousemove_listener st' \<and> mouseup_listener st' \<and>
           mousedown_listener st' = mousedown_listener st \<and>
           startingLists st' = startingLists st \<and>
           addedPreview st' = addedPreview st \<and>
           targetIndex st' = targetIndex st \<and>
           targetListIndex st' = targetListIndex st \<and>
           total_items (lists_value st') + 1 = total_items (lists_value st)"
proof -
  from find_source_found [OF found, of 0 "originalIndex st" "originalListIndex st"]
  obtain j k where jk:
    "find_source (Some a) (lists_value st) 0 (originalIndex st, originalListIndex st)
       = (int k, int j)"
    "j < length (lists_value st)" "k < length (lists_value st ! j)"
    "item_id (lists_value st ! j ! k) = a"
    by auto
  from total_items_after_remove [OF jk(2) jk(3)] jk idle show ?thesis
    by (simp add: handleMouseDown_def capture_def handle_of_def js_index_def
        item_id_json_item)
qed

lemma move_keeps:
  "startingLists (state_of (handleMouseMove h s)) = startingLists s \<and>
   dragging (state_of (handleMouseMove h s)) = dragging s \<and>
   elem (state_of (handleMouseMove h s)) = elem s \<and>
   ghost_in_body (state_of (handleMouseMove h s)) = ghost_in_body s \<and>
   originalItem (state_of (handleMouseMove h s)) = originalItem s \<and>
   mousedown_listener (state_of (handleMouseMove h s)) = mousedown_listener s \<and>
   mousemove_listener (state_of (handleMouseMove h s)) = mousemove_listener s \<and>
   mouseup_listener (state_of (handleMouseMove h s)) = mouseup_listener s"
  by (simp add: handleMouseMove_def remove_preview_def insert_original_def Let_def
      split: option.splits prod.splits)

lemma run_append: "run json (xs @ ys) st = run json ys (run json xs st)"
  by (induction xs arbitrary: st) simp_all

lemma run_moves_keep:
  "startingLists (run json (map MouseMove hs) s) = startingLists s \<and>
   dragging (run json (map MouseMove hs) s) = dragging s \<and>
   elem (run json (map MouseMove hs) s) = elem s \<and>
   ghost_in_body (run json (map MouseMove hs) s) = ghost_in_body s \<and>
   originalItem (run json (map MouseMove hs) s) = originalItem s \<and>
   mousedown_listener (run json (map MouseMove hs) s) = mousedown_listener s \<and>
   mousemove_listener (run json (map MouseMove hs) s) = mousemove_listener s \<and>
   mouseup_listener (run json (map MouseMove hs) s) = mouseup_listener s"
proof (induction hs arbitrary: s)
  case Nil
  then show ?case by simp
next
  case (Cons h hs)
  show ?case
  proof (cases "mousemove_listener s")
    case True
    with Cons.IH [of "state_of (handleMouseMove h s)"] move_keeps [of h s]
    show ?thesis by simp
  next
    case False
    with Cons.IH [of s] show ?thesis by simp
  qed
qed

lemma release_rolls_back:
  assumes "mouseup_listener s" "dragging s \<noteq> None" "elem s \<noteq> None" "ghost_in_body s"
    "targetIndex s = - 1"
  shows "lists_value (state_of (dispatch json MouseUp s)) = json_lists json (startingLists s) \<and>
         startingLists (state_of (dispatch json MouseUp s)) = startingLists s"
  using assms by (auto simp add: handleMouseUp_def cleanUp_def)

lemma gesture_rolls_back_to_baseline:
  assumes idle: "originalItem st = None" and mounted: "mousedown_listener st"
    and found: "has_id a (lists_value st)"
    and invalid: "targetIndex (run json (press a # map MouseMove hs) st) = - 1"
  shows "lists_value (run json (press a # map MouseMove hs @ [MouseUp]) st)
           = json_lists json (startingLists st)"
proof -
  from press_captures [OF idle found] obtain st1 where st1:
    "handleMouseDown json (HTMLElement (Some (handle_of a))) st = Returned st1"
    "dragging st1 = Some (handle_of a)" "elem st1 = Some (handle_of a)"
    "ghost_in_body st1" "mouseup_listener st1" "startingLists st1 = startingLists st"
    by blast
  define st2 where "st2 = run json (map MouseMove hs) st1"
  from mounted st1(1) have pre: "run json (press a # map MouseMove hs) st = st2"
    by (simp add: press_def st2_def)
  from run_moves_keep [of json hs st1] st1 have st2:
    "mouseup_listener st2" "dragging st2 \<noteq> None" "elem st2 \<noteq> None" "ghost_in_body st2"
    "startingLists st2 = startingLists st"
    by (simp_all add: st2_def)
  from invalid pre have "targetIndex st2 = - 1" by simp
  from release_rolls_back [OF st2(1-4) this] st2(5)
  have "lists_value (state_of (dispatch json MouseUp st2)) = json_lists json (startingLists st)"
    by simp
  moreover have "run json (press a # map MouseMove hs @ [MouseUp]) st
      = state_of (dispatch json MouseUp st2)"
    using pre run_append [of json "press a # map MouseMove hs" "[MouseUp]" st] by simp
  ultimately show ?thesis by simp
qed

subsection \<open>The idle states reached through events\<close>

lemma down_keeps_item:
  "originalItem st \<noteq> None \<Longrightarrow>
   originalItem (state_of (handleMouseDown json t st)) = originalItem st"
  by (cases t) (simp_all add: handleMouseDown_def capture_def Let_def
      split: option.splits prod.splits)

lemma down_idle_result:
  "originalItem st = None \<Longrightarrow> originalItem (state_of (handleMouseDown json t st)) = None \<Longrightarrow>
   lists_value (state_of (handleMouseDown json t st)) = lists_value st \<and>
   startingLists (state_of (handleMouseDown json t st)) = startingLists st \<and>
   mousemove_listener (state_of (handleMouseDown json t st)) = mousemove_listener st \<and>
   mouseup_listener (state_of (handleMouseDown json t st)) = mouseup_listener st"
  by (cases t) (auto simp add: handleMouseDown_def capture_def Let_def
      split: option.splits prod.splits)

lemma up_result:
  "originalItem (state_of (handleMouseUp json st)) = None \<Longrightarrow>
   originalItem st = None \<and> state_of (handleMouseUp json st) = st \<or>
   arrangement (lists_value (state_of (handleMouseUp json st)))
     = arrangement (startingLists (state_of (handleMouseUp json st))) \<and>
   \<not> mousemove_listener (state_of (handleMouseUp json st)) \<and>
   \<not> mouseup_listener (state_of (handleMouseUp json st))"
  by (auto simp add: handleMouseUp_def cleanUp_def Let_def arrangement_json_lists)

text \<open>
  With no item detached, the List Collection and the baseline hold the same identifiers
  at the same positions, and the mousemove and mouseup handlers are not registered.
\<close>

lemma reachable_idle:
  "reachable json items st \<Longrightarrow> originalItem st = None \<Longrightarrow>
   arrangement (lists_value st) = arrangement (startingLists st) \<and>
   \<not> mousemove_listener st \<and> \<not> mouseup_listener st"
proof (induction rule: reachable.induct)
  case reach_init
  show ?case by (simp add: useDragDrop_def arrangement_json_lists)
next
  case (reach_step st e)
  show ?case
  proof (cases e)
    case Mount
    with reach_step show ?thesis by simp
  next
    case Unmount
    with reach_step show ?thesis by simp
  next
    case (MouseDown t)
    show ?thesis
    proof (cases "mousedown_listener st")
      case False
      with MouseDown reach_step show ?thesis by simp
    next
      case True
      with MouseDown reach_step.prems
      have now: "originalItem (state_of (handleMouseDown json t st)) = None" by simp
      have idle: "originalItem st = None"
      proof (rule ccontr)
        assume active: "originalItem st \<noteq> None"
        from down_keeps_item [OF active, of json t] now active show False by simp
      qed
      from down_idle_result [OF idle now] reach_step.IH [OF idle] MouseDown True
      show ?thesis by simp
    qed
  next
    case (MouseMove h)
    show ?thesis
    proof (cases "mousemove_listener st")
      case False
      with MouseMove reach_step show ?thesis by simp
    next
      case True
      with MouseMove reach_step.prems move_keeps [of h st]
      have "originalItem st = None" by simp
      with reach_step.IH True show ?thesis by simp
    qed
  next
    case MouseUp
    show ?thesis
    proof (cases "mouseup_listener st")
      case False
      with MouseUp reach_step show ?thesis by simp
    next
      case True
      with MouseUp reach_step.prems
      have now: "originalItem (state_of (handleMouseUp json st)) = None" by simp
      from up_result [OF now] reach_step.IH True MouseUp show ?thesis by auto
    qed
  qed
qed


subsection \<open>The states of the scenarios\<close>

lemma holding_A_value:
  "holding_A =
     \<lparr> lists_value = [[it ''B'', it ''C'']],
       startingLists = abc,
       elem = Some (handle_of ''A''), dragging = Some (handle_of ''A''), ghost_in_body = True,
       originalIndex = 0, originalListIndex = 0,
       targetListIndex = - 1, targetIndex = - 1,
       originalItem = Some (it ''A''), addedPreview = None,
       mousedown_listener = True, mousemove_listener = True, mouseup_listener = True \<rparr>"
  by (simp add: holding_A_def scenario_defs js_defs handler_defs)

lemma dragging_A_over_D_value:
  "dragging_A_over_D =
     \<lparr> lists_value = [[it ''B'', it ''C''], [it ''A'', it ''D'', it ''E'']],
       startingLists = abc_de,
       elem = Some (handle_of ''A''), dragging = Some (handle_of ''A''), ghost_in_body = True,
       originalIndex = 0, originalListIndex = 0,
       targetListIndex = 1, targetIndex = 0,
       originalItem = Some (it ''A''), addedPreview = Some \<lparr>pv_list = 1, pv_target = 0\<rparr>,
       mousedown_listener = True, mousemove_listener = True, mouseup_listener = True \<rparr>"
  by (simp add: dragging_A_over_D_def scenario_defs js_defs handler_defs)

lemma dragging_A_over_C_value:
  "dragging_A_over_C =
     \<lparr> lists_value = [[it ''B'', it ''A'', it ''C'']],
       startingLists = abc,
       elem = Some (handle_of ''A''), dragging = Some (handle_of ''A''), ghost_in_body = True,
       originalIndex = 0, originalListIndex = 0,
       targetListIndex = 0, targetIndex = 1,
       originalItem = Some (it ''A''), addedPreview = Some \<lparr>pv_list = 0, pv_target = 1\<rparr>,
       mousedown_listener = True, mousemove_listener = True, mouseup_listener = True \<rparr>"
  by (simp add: dragging_A_over_C_def scenario_defs js_defs handler_defs)


section \<open>The claims\<close>

subsection \<open>C1: a failed drag and the rollback snapshot\<close>

text \<open>
  What a failed drag restores is the JSON copy of \<open>startingLists\<close>. In the states reached
  through events alone that has the identifiers of the List Collection at the
  pointer-down, each at its position.
\<close>

lemma failed_drag_restores_arrangement:
  assumes "reachable json items st" and "originalItem st = None" and "mousedown_listener st"
    and "has_id a (lists_value st)"
    and "targetIndex (run json (press a # map MouseMove hs) st) = - 1"
  shows "lists_value (run json (press a # map MouseMove hs @ [MouseUp]) st)
           = json_lists json (startingLists st) \<and>
         arrangement (lists_value (run json (press a # map MouseMove hs @ [MouseUp]) st))
           = arrangement (lists_value st)"
  using gesture_rolls_back_to_baseline [OF assms(2-5)] reachable_idle [OF assms(1,2)]
  by (simp add: arrangement_json_lists)

text \<open>
  C1 asks that a failed drag leaves the List Collection as it was at the pointer-down.
  \<open>startingLists\<close>, the ``starting value before dragging'' of line 33, is assigned where
  the closure is created and after a committed drag (line 186), never at pointer-down.
  The caller holds the ref \<open>lists\<close>; once it has put \<open>[[A, B]]\<close> there, a pointer-down on
  \<open>A\<close> followed by a release with \<open>targetIndex = -1\<close> leaves \<open>[[A]]\<close>, the arrangement at
  creation: \<open>B\<close> is lost.
\<close>

theorem rollback_baseline_not_taken_at_pointer_down:
  "originalItem after_caller_push = None \<and>
   has_id ''A'' (lists_value after_caller_push) \<and>
   lists_value after_caller_push = [[it ''A'', it ''B'']] \<and>
   targetIndex (run id [press ''A''] after_caller_push) = - 1 \<and>
   lists_value (run id [press ''A'', MouseUp] after_caller_push) = [[it ''A'']] \<and>
   lists_value (run id [press ''A'', MouseUp] after_caller_push) \<noteq> lists_value after_caller_push"
  by (simp add: scenario_defs js_defs handler_defs)

subsection \<open>C7: the baseline after a commit\<close>








subsection \<open>C8: a pointer-down while an item is detached\<close>

text \<open>
  What the test \<open>if (!originalItem)\<close> of line 87 does keep: while an item is detached, a
  pointer-down of any kind throws nothing, removes no item from the List Collection, and
  leaves the detached item, the preview record, the target indices and the baseline as
  they were.
\<close>

lemma pointer_down_during_session_keeps_item_and_lists:
  assumes "originalItem st \<noteq> None"
  shows "\<not> threw (dispatch json (MouseDown t) st) \<and>
         lists_value (state_of (dispatch json (MouseDown t) st)) = lists_value st \<and>
         originalItem (state_of (dispatch json (MouseDown t) st)) = originalItem st \<and>
         addedPreview (state_of (dispatch json (MouseDown t) st)) = addedPreview st \<and>
         targetIndex (state_of (dispatch json (MouseDown t) st)) = targetIndex st \<and>
         targetListIndex (state_of (dispatch json (MouseDown t) st)) = targetListIndex st \<and>
         startingLists (state_of (dispatch json (MouseDown t) st)) = startingLists st"
  using assms
  by (cases t) (auto simp add: handleMouseDown_def capture_def Let_def
      split: option.splits prod.splits)

text \<open>
  C8 asks that a pointer-down during a session is ignored. The test of line 87 comes
  after lines 65-85, which assign \<open>elem\<close>, \<open>dragging\<close> and the source indices on every
  pointer-down. With \<open>A\<close> detached from \<open>[[A, B, C]]\<close>, a pointer-down outside every handle
  sets \<open>elem\<close> to \<open>null\<close> (line 65); the release then returns at line 170, so nothing is
  restored or cleaned up: \<open>A\<close> stays detached, the ghost stays in \<open>dragging\<close>, and both
  handlers stay registered. A pointer-down on the handle of \<open>C\<close> overwrites the source
  index \<open>0\<close> with \<open>1\<close> and replaces the tracked element and the ghost.
\<close>

theorem pointer_down_during_session_disturbs_session:
  "originalItem holding_A = Some (it ''A'') \<and>
   originalIndex holding_A = 0 \<and>
   elem holding_A = Some (handle_of ''A'') \<and>
   elem (run id [MouseDown (HTMLElement None)] holding_A) = None \<and>
   run id [MouseDown (HTMLElement None), MouseUp] holding_A
     = run id [MouseDown (HTMLElement None)] holding_A \<and>
   originalItem (run id [MouseDown (HTMLElement None), MouseUp] holding_A) = Some (it ''A'') \<and>
   lists_value (run id [MouseDown (HTMLElement None), MouseUp] holding_A)
     = [[it ''B'', it ''C'']] \<and>
   dragging (run id [MouseDown (HTMLElement None), MouseUp] holding_A)
     = Some (handle_of ''A'') \<and>
   mousemove_listener (run id [MouseDown (HTMLElement None), MouseUp] holding_A) \<and>
   mouseup_listener (run id [MouseDown (HTMLElement None), MouseUp] holding_A) \<and>
   originalIndex (run id [press ''C''] holding_A) = 1 \<and>
   elem (run id [press ''C''] holding_A) = Some (handle_of ''C'') \<and>
   dragging (run id [press ''C''] holding_A) = Some (handle_of ''C'')"
  by (simp add: holding_A_value scenario_defs js_defs handler_defs)

subsection \<open>C10: the listeners after unmount\<close>

text \<open>
  C10. Unmounting changes nothing but the mousemove and mouseup registrations; the
  mousedown listener stays. So in a mounted state with no item detached, after unmount a
  pointer-down on a handle whose item is found still detaches that item (the List
  Collection loses one item) and registers the other two handlers again.
\<close>

theorem unmount_keeps_mousedown_listener:
  assumes "mousedown_listener st" and "originalItem st = None"
    and "has_id a (lists_value st)"
  shows "run json [Unmount] st = st\<lparr>mousemove_listener := False, mouseup_listener := False\<rparr> \<and>
         mousedown_listener (run json [Unmount] st) \<and>
         \<not> threw (dispatch json (press a) (run json [Unmount] st)) \<and>
         (\<exists>x. originalItem (run json [Unmount, press a] st) = Some x \<and> item_id x = a) \<and>
         total_items (lists_value (run json [Unmount, press a] st)) + 1
           = total_items (lists_value st) \<and>
         mousemove_listener (run json [Unmount, press a] st) \<and>
         mouseup_listener (run json [Unmount, press a] st)"
proof -
  define st0 where "st0 = st\<lparr>mousemove_listener := False, mouseup_listener := False\<rparr>"
  have un: "run json [Unmount] st = st0" by (simp add: st0_def)
  from assms have st0: "mousedown_listener st0" "originalItem st0 = None"
    "has_id a (lists_value st0)" "lists_value st0 = lists_value st"
    by (simp_all add: st0_def)
  from press_captures [OF st0(2,3)] obtain st' x where cap:
    "handleMouseDown json (HTMLElement (Some (handle_of a))) st0 = Returned st'"
    "originalItem st' = Some x" "item_id x = a"
    "mousemove_listener st'" "mouseup_listener st'"
    "total_items (lists_value st') + 1 = total_items (lists_value st0)"
    by blast
  from st0(1) cap(1) have step: "dispatch json (press a) st0 = Returned st'"
    by (simp add: press_def)
  then have "run json [Unmount, press a] st = st'"
    by (simp add: st0_def)
  with un st0 cap step show ?thesis by simp
qed

text \<open>The hypotheses hold for \<open>[[A, B, C]]\<close> after mount, with a pointer-down on \<open>B\<close>.\<close>

theorem unmount_keeps_mousedown_listener_witness:
  "mousedown_listener mounted_abc \<and> originalItem mounted_abc = None \<and>
   has_id ''B'' (lists_value mounted_abc) \<and>
   mousedown_listener (run id [Unmount] mounted_abc) \<and>
   \<not> mousemove_listener (run id [Unmount] mounted_abc) \<and>
   \<not> mouseup_listener (run id [Unmount] mounted_abc) \<and>
   originalItem (run id [Unmount, press ''B''] mounted_abc) = Some (it ''B'') \<and>
   lists_value (run id [Unmount, press ''B''] mounted_abc) = [[it ''A'', it ''C'']] \<and>
   total_items (lists_value (run id [Unmount, press ''B''] mounted_abc)) + 1
     = total_items (lists_value mounted_abc) \<and>
   mousemove_listener (run id [Unmount, press ''B''] mounted_abc) \<and>
   mouseup_listener (run id [Unmount, press ''B''] mounted_abc)"
proof -
  have h: "mousedown_listener mounted_abc" "originalItem mounted_abc = None"
    "has_id ''B'' (lists_value mounted_abc)"
    by (simp_all add: mounted_abc_def scenario_defs handler_defs)
  have v: "originalItem (run id [Unmount, press ''B''] mounted_abc) = Some (it ''B'')"
    "lists_value (run id [Unmount, press ''B''] mounted_abc) = [[it ''A'', it ''C'']]"
    "\<not> mousemove_listener (run id [Unmount] mounted_abc)"
    "\<not> mouseup_listener (run id [Unmount] mounted_abc)"
    by (simp_all add: mounted_abc_def scenario_defs js_defs handler_defs)
  from unmount_keeps_mousedown_listener [OF h] h v show ?thesis by blast
qed

subsection \<open>C2: a pointer-down on a handle whose identifier is in no list\<close>

lemma find_source_cases:
  "(\<exists>j k. find_source a ls i (oi, oli) = (int k, int (i + j)) \<and>
          j < length ls \<and> k < length (ls ! j)) \<or>
   find_source a ls i (oi, oli) = (if ls = [] then oi else - 1, oli)"
proof (induction ls arbitrary: i oi)
  case Nil
  show ?case by simp
next
  case (Cons l ls)
  show ?case
  proof (cases "list_ex (matches a) l")
    case True
    from findIndex_from_found [OF this, of 0] obtain k
      where k: "k < length l" "findIndex_from (matches a) l 0 = int k"
      by auto
    then have "find_source a (l # ls) i (oi, oli) = (int k, int (i + 0)) \<and>
        0 < length (l # ls) \<and> k < length ((l # ls) ! 0)"
      by (simp add: findIndex_def)
    then show ?thesis by blast
  next
    case False
    then have none: "findIndex (matches a) l = - 1"
      by (simp add: findIndex_def findIndex_from_none)
    from Cons.IH [of "Suc i" "- 1"] show ?thesis
    proof
      assume "\<exists>j k. find_source a ls (Suc i) (- 1, oli) = (int k, int (Suc i + j)) \<and>
          j < length ls \<and> k < length (ls ! j)"
      then obtain j k where "find_source a ls (Suc i) (- 1, oli) = (int k, int (Suc i + j))"
        "j < length ls" "k < length (ls ! j)"
        by blast
      with none have "find_source a (l # ls) i (oi, oli) = (int k, int (i + Suc j)) \<and>
          Suc j < length (l # ls) \<and> k < length ((l # ls) ! Suc j)"
        by simp
      then show ?thesis by blast
    next
      assume "find_source a ls (Suc i) (- 1, oli) = (if ls = [] then - 1 else - 1, oli)"
      with none show ?thesis by simp
    qed
  qed
qed

lemma down_idle_keeps_source_list:
  assumes "originalItem st = None"
    and "originalItem (state_of (handleMouseDown json t st)) = None"
  shows "originalListIndex (state_of (handleMouseDown json t st)) = originalListIndex st"
proof (cases t)
  case NotHTMLElement
  then show ?thesis by (simp add: handleMouseDown_def)
next
  case (HTMLElement c)
  show ?thesis
  proof (cases c)
    case None
    with HTMLElement show ?thesis by (simp add: handleMouseDown_def)
  next
    case (Some el)
    from find_source_cases [of "getAttribute_id el" "lists_value st" 0
        "originalIndex st" "originalListIndex st"]
    show ?thesis
    proof
      assume "\<exists>j k. find_source (getAttribute_id el) (lists_value st) 0
            (originalIndex st, originalListIndex st) = (int k, int (0 + j)) \<and>
          j < length (lists_value st) \<and> k < length (lists_value st ! j)"
      then obtain j k where "find_source (getAttribute_id el) (lists_value st) 0
            (originalIndex st, originalListIndex st) = (int k, int j)"
        "j < length (lists_value st)" "k < length (lists_value st ! j)"
        by auto
      with assms HTMLElement Some have False
        by (simp add: handleMouseDown_def capture_def js_index_def)
      then show ?thesis ..
    next
      assume "find_source (getAttribute_id el) (lists_value st) 0
            (originalIndex st, originalListIndex st)
          = (if lists_value st = [] then originalIndex st else - 1, originalListIndex st)"
      with assms HTMLElement Some show ?thesis
        by (auto simp add: handleMouseDown_def capture_def Let_def
            split: option.splits if_splits)
    qed
  qed
qed

lemma move_keeps_source_list:
  "originalListIndex (state_of (handleMouseMove h s)) = originalListIndex s"
  by (simp add: handleMouseMove_def remove_preview_def insert_original_def Let_def
      split: option.splits prod.splits)

lemma up_source_list:
  "originalItem (state_of (handleMouseUp json st)) = None \<Longrightarrow>
   originalItem st = None \<and> state_of (handleMouseUp json st) = st \<or>
   originalListIndex (state_of (handleMouseUp json st)) = - 1"
  by (auto simp add: handleMouseUp_def cleanUp_def Let_def)

lemma reachable_idle_source_list:
  "reachable json items st \<Longrightarrow> originalItem st = None \<Longrightarrow> originalListIndex st = - 1"
proof (induction rule: reachable.induct)
  case reach_init
  show ?case by (simp add: useDragDrop_def)
next
  case (reach_step st e)
  show ?case
  proof (cases e)
    case Mount
    with reach_step show ?thesis by simp
  next
    case Unmount
    with reach_step show ?thesis by simp
  next
    case (MouseDown t)
    show ?thesis
    proof (cases "mousedown_listener st")
      case False
      with MouseDown reach_step show ?thesis by simp
    next
      case True
      with MouseDown reach_step.prems
      have now: "originalItem (state_of (handleMouseDown json t st)) = None" by simp
      have idle: "originalItem st = None"
      proof (rule ccontr)
        assume active: "originalItem st \<noteq> None"
        from down_keeps_item [OF active, of json t] now active show False by simp
      qed
      from down_idle_keeps_source_list [OF idle now] reach_step.IH [OF idle] MouseDown True
      show ?thesis by simp
    qed
  next
    case (MouseMove h)
    show ?thesis
    proof (cases "mousemove_listener st")
      case False
      with MouseMove reach_step show ?thesis by simp
    next
      case True
      with MouseMove reach_step.prems move_keeps [of h st]
      have "originalItem st = None" by simp
      with reach_step.IH True MouseMove move_keeps_source_list [of h st]
      show ?thesis by simp
    qed
  next
    case MouseUp
    show ?thesis
    proof (cases "mouseup_listener st")
      case False
      with MouseUp reach_step show ?thesis by simp
    next
      case True
      with MouseUp reach_step.prems
      have now: "originalItem (state_of (handleMouseUp json st)) = None" by simp
      from up_source_list [OF now] reach_step.IH True MouseUp show ?thesis by auto
    qed
  qed
qed

text \<open>
  In every state reached through events in which no item is detached, the mousedown
  listener is registered and the identifier is in no list, the pointer-down throws a
  TypeError at line 88. It leaves the List Collection and the listeners alone, and has
  by then assigned \<open>elem\<close> and \<open>dragging\<close>.
\<close>

lemma unknown_id_press_throws:
  assumes "reachable json items st" and "originalItem st = None" and "mousedown_listener st"
    and "\<not> has_id a (lists_value st)"
  shows "\<exists>s. dispatch json (press a) st = Threw TypeError s \<and>
             lists_value s = lists_value st \<and> startingLists s = startingLists st \<and>
             elem s = Some (handle_of a) \<and> dragging s = Some (handle_of a) \<and>
             originalItem s = None \<and>
             \<not> mousemove_listener s \<and> \<not> mouseup_listener s"
proof -
  from reachable_idle_source_list [OF assms(1,2)] have oli: "originalListIndex st = - 1" .
  from reachable_idle [OF assms(1,2)]
  have off: "\<not> mousemove_listener st" "\<not> mouseup_listener st" by simp_all
  from find_source_missing [OF assms(4), of 0 "originalIndex st" "originalListIndex st"]
  have "find_source (Some a) (lists_value st) 0 (originalIndex st, originalListIndex st)
      = (if lists_value st = [] then originalIndex st else - 1, originalListIndex st)" .
  with assms(2,3) oli off show ?thesis
    by (simp add: press_def handle_of_def handleMouseDown_def capture_def js_index_def)
qed

text \<open>
  C2 asks for a silent abort. With \<open>[[A, B, C]]\<close> mounted and nothing detached, a
  pointer-down on a handle bound to \<open>Z\<close> leaves the loop of lines 77-85 with
  \<open>originalListIndex = -1\<close>; line 88 then reads \<open>lists.value[-1][-1]\<close> and throws a
  TypeError. The List Collection is unchanged and no listener is registered, but \<open>elem\<close>
  and \<open>dragging\<close> have been assigned.
\<close>

theorem pointer_down_on_unknown_id_throws:
  "originalItem mounted_abc = None \<and>
   \<not> has_id ''Z'' (lists_value mounted_abc) \<and>
   dispatch id (press ''Z'') mounted_abc
     = Threw TypeError (mounted_abc\<lparr>elem := Some (handle_of ''Z''),
                                     dragging := Some (handle_of ''Z'')\<rparr>)"
  by (simp add: mounted_abc_def scenario_defs js_defs handler_defs Let_def)

subsection \<open>C3: one position for the dragged item\<close>

text \<open>
  C3 asks that the dragged item's identifier is never in two positions. While \<open>A\<close> is
  previewed before \<open>D\<close> in \<open>[[B, C], [A, D, E]]\<close>, a move over no element sets
  \<open>targetIndex = -1\<close>; two moves over a handle bound to \<open>Z\<close>, which is in no list, then
  run lines 155-165 with that stale index: \<open>splice(-1, 1)\<close> removes the last item of the
  list instead of the preview. \<open>A\<close> is in two positions and \<open>E\<close> is gone.
\<close>

theorem stale_target_duplicates_dragged_item:
  "originalItem (run id [MouseMove None, hover ''Z'', hover ''Z''] dragging_A_over_D)
     = Some (it ''A'') \<and>
   lists_value (run id [MouseMove None, hover ''Z'', hover ''Z''] dragging_A_over_D)
     = [[it ''B'', it ''C''], [it ''D'', it ''A'', it ''A'']] \<and>
   occurrences ''A''
     (lists_value (run id [MouseMove None, hover ''Z'', hover ''Z''] dragging_A_over_D)) = 2 \<and>
   occurrences ''E''
     (lists_value (run id [MouseMove None, hover ''Z'', hover ''Z''] dragging_A_over_D)) = 0"
  by (simp add: dragging_A_over_D_value scenario_defs js_defs handler_defs)

subsection \<open>C6: a move that resolves no target\<close>

text \<open>
  C6 asks that a move over an element without identifier, or with an identifier that is
  in no list, leaves the List Collection as it was. After a move over no element has set
  \<open>targetIndex = -1\<close>, such a move takes the preview out of \<open>[A, D, E]\<close> and puts \<open>A\<close> back
  with \<open>splice(-1, 0, A)\<close>: the list becomes \<open>[D, A, E]\<close>.
\<close>

theorem move_over_unknown_element_moves_preview:
  "lists_value (run id [MouseMove None] dragging_A_over_D)
     = [[it ''B'', it ''C''], [it ''A'', it ''D'', it ''E'']] \<and>
   targetIndex (run id [MouseMove None] dragging_A_over_D) = - 1 \<and>
   \<not> has_id ''Z'' (lists_value (run id [MouseMove None] dragging_A_over_D)) \<and>
   lists_value (run id [MouseMove None, hover ''Z''] dragging_A_over_D)
     = [[it ''B'', it ''C''], [it ''D'', it ''A'', it ''E'']] \<and>
   lists_value (run id [MouseMove None, MouseMove (Some (Element None))] dragging_A_over_D)
     = [[it ''B'', it ''C''], [it ''D'', it ''A'', it ''E'']]"
  by (simp add: dragging_A_over_D_value scenario_defs js_defs handler_defs)

subsection \<open>C9: two moves over the same item\<close>

lemma findIndex_from_append:
  "\<forall>f\<in>set pre. \<not> P f \<Longrightarrow> P h \<Longrightarrow>
   findIndex_from P (pre @ h # post) i = i + int (length pre)"
  by (induction pre arbitrary: i) simp_all

lemma find_append:
  "\<forall>f\<in>set pre. \<not> P f \<Longrightarrow> P h \<Longrightarrow> List.find P (pre @ h # post) = Some h"
  by (induction pre) simp_all

lemma find_none: "\<not> list_ex P l \<Longrightarrow> List.find P l = None"
  by (induction l) simp_all

lemma find_target_first:
  assumes "a \<noteq> []" and "j < length ls" and "\<not> has_id a (take j ls)"
    and "ls ! j = pre @ h # post" and "\<forall>f\<in>set pre. item_id f \<noteq> a" and "item_id h = a"
  shows "find_target (Some a) ls i (ti, tli) = (int (length pre), int (i + j))"
  using assms(2-4)
proof (induction ls arbitrary: i j)
  case Nil
  then show ?case by simp
next
  case (Cons l ls)
  show ?case
  proof (cases j)
    case 0
    with Cons.prems have l: "l = pre @ h # post" by simp
    from assms(5,6) have "List.find (matches (Some a)) l = Some h"
      and "findIndex (matches (Some a)) l = int (length pre)"
      unfolding l findIndex_def matches_Some
      by (simp_all add: find_append findIndex_from_append)
    with 0 assms(1) show ?thesis by (simp add: no_id_def)
  next
    case (Suc j')
    with Cons.prems have j': "j' < length ls" "\<not> has_id a (take j' ls)"
      "ls ! j' = pre @ h # post" and l: "\<not> list_ex (matches (Some a)) l"
      by (simp_all add: has_id_def matches_Some)
    from Cons.IH [OF j', of "Suc i"] l Suc assms(1) show ?thesis
      by (simp add: no_id_def find_none)
  qed
qed

text \<open>
  C9, as stated, fails. With \<open>A\<close> previewed before \<open>D\<close> in \<open>[[B, C], [A, D, E]]\<close>, a second
  move over \<open>D\<close> finds \<open>D\<close> at index \<open>1\<close> (line 146), then removes the preview at index \<open>0\<close>
  (line 156), and inserts \<open>A\<close> at index \<open>1\<close> of \<open>[D, E]\<close>.
\<close>

theorem second_move_over_same_item_shifts_preview:
  "addedPreview dragging_A_over_D = Some \<lparr>pv_list = 1, pv_target = 0\<rparr> \<and>
   lists_value dragging_A_over_D = [[it ''B'', it ''C''], [it ''A'', it ''D'', it ''E'']] \<and>
   lists_value (run id [hover ''D''] dragging_A_over_D)
     = [[it ''B'', it ''C''], [it ''D'', it ''A'', it ''E'']] \<and>
   addedPreview (run id [hover ''D''] dragging_A_over_D) = Some \<lparr>pv_list = 1, pv_target = 1\<rparr>"
  by (simp add: dragging_A_over_D_value scenario_defs js_defs handler_defs)

text \<open>
  C9, amended. The index of the hovered item is taken with the preview still in the list
  and used once the preview is out. So in a session whose preview holds the dragged item
  \<open>x\<close> immediately before the hovered item \<open>h\<close> (the arrangement a first move over \<open>h\<close>
  leaves), a further move over \<open>h\<close> throws nothing and exchanges the two: the list
  \<open>xs @ x # h # ys\<close> becomes \<open>xs @ h # x # ys\<close> and the preview is recorded one index
  further. The identifier of \<open>h\<close> is not empty and \<open>h\<close> is the first item that carries it.
\<close>

theorem repeated_move_swaps_dragged_and_hovered:
  assumes "dragging st \<noteq> None" and "originalItem st = Some x"
    and "addedPreview st = Some \<lparr>pv_list = int j, pv_target = int (length xs)\<rparr>"
    and "j < length (lists_value st)"
    and "lists_value st ! j = xs @ x # h # ys"
    and "item_id h = a" and "a \<noteq> []" and "item_id x \<noteq> a"
    and "\<forall>f\<in>set xs. item_id f \<noteq> a"
    and "\<not> has_id a (take j (lists_value st))"
  shows "\<not> threw (handleMouseMove (Some (handle_of a)) st) \<and>
         lists_value (state_of (handleMouseMove (Some (handle_of a)) st))
           = (lists_value st)[j := xs @ h # x # ys] \<and>
         addedPreview (state_of (handleMouseMove (Some (handle_of a)) st))
           = Some \<lparr>pv_list = int j, pv_target = int (length xs) + 1\<rparr>"
proof -
  from assms(8,9) have pre: "\<forall>f\<in>set (xs @ [x]). item_id f \<noteq> a" by simp
  from assms(5) have at: "lists_value st ! j = (xs @ [x]) @ h # ys" by simp
  from find_target_first [OF assms(7) assms(4) assms(10) at pre assms(6),
      of 0 "targetIndex st" "targetListIndex st"]
  have tgt: "find_target (Some a) (lists_value st) 0 (targetIndex st, targetListIndex st)
      = (int (length xs) + 1, int j)"
    by simp
  have rm: "splice_remove (int (length xs)) (xs @ x # h # ys) = xs @ h # ys"
    by (simp add: splice_remove_def splice_start_def)
  have ins: "splice_insert (int (length xs) + 1) x (xs @ h # ys) = xs @ h # x # ys"
    by (simp add: splice_insert_def splice_start_def nat_add_distrib)
  from assms(1-5) tgt rm ins show ?thesis
    by (simp add: handleMouseMove_def remove_preview_def insert_original_def js_index_def
        handle_of_def)
qed

text \<open>The hypotheses hold with \<open>A\<close> previewed before \<open>D\<close> and a further move over \<open>D\<close>.\<close>

theorem repeated_move_swaps_dragged_and_hovered_witness:
  "dragging dragging_A_over_D \<noteq> None \<and>
   originalItem dragging_A_over_D = Some (it ''A'') \<and>
   addedPreview dragging_A_over_D = Some \<lparr>pv_list = 1, pv_target = 0\<rparr> \<and>
   lists_value dragging_A_over_D ! 1 = [it ''A'', it ''D'', it ''E''] \<and>
   \<not> has_id ''D'' (take 1 (lists_value dragging_A_over_D)) \<and>
   \<not> threw (handleMouseMove (Some (handle_of ''D'')) dragging_A_over_D) \<and>
   lists_value (state_of (handleMouseMove (Some (handle_of ''D'')) dragging_A_over_D))
     = [[it ''B'', it ''C''], [it ''D'', it ''A'', it ''E'']]"
proof -
  note v = dragging_A_over_D_value
  have h: "dragging dragging_A_over_D \<noteq> None"
    "originalItem dragging_A_over_D = Some (it ''A'')"
    "addedPreview dragging_A_over_D
       = Some \<lparr>pv_list = int 1, pv_target = int (length ([] :: unit item list))\<rparr>"
    "1 < length (lists_value dragging_A_over_D)"
    "lists_value dragging_A_over_D ! 1 = [] @ it ''A'' # it ''D'' # [it ''E'']"
    "item_id (it ''D'') = ''D''" "''D'' \<noteq> []" "item_id (it ''A'') \<noteq> ''D''"
    "\<forall>f\<in>set ([] :: unit item list). item_id f \<noteq> ''D''"
    "\<not> has_id ''D'' (take 1 (lists_value dragging_A_over_D))"
    by (simp_all add: v has_id_def it_def)
  from repeated_move_swaps_dragged_and_hovered [OF h] h(1,2,10)
  show ?thesis by (simp add: v)
qed

subsection \<open>C4: the cross-list move\<close>

lemma hover_D_twice:
  "run id [hover ''D'', hover ''D''] dragging_A_over_D = dragging_A_over_D"
  by (simp add: dragging_A_over_D_value scenario_defs js_defs handler_defs)

lemma hover_D_even:
  "run id (replicate (2 * n) (hover ''D'')) dragging_A_over_D = dragging_A_over_D"
proof (induction n)
  case 0
  show ?case by simp
next
  case (Suc n)
  have "replicate (2 * Suc n) (hover ''D'')
      = [hover ''D'', hover ''D''] @ replicate (2 * n) (hover ''D'')"
    by simp
  with run_append [of id "[hover ''D'', hover ''D'']" "replicate (2 * n) (hover ''D'')"
      dragging_A_over_D] hover_D_twice Suc.IH
  show ?case by (simp only:)
qed

text \<open>
  C4, as stated, fails: it allows any number of moves over \<open>D\<close>, and two of them end in
  \<open>[[B, C], [D, A, E]]\<close>.
\<close>

theorem cross_list_move_two_moves:
  "lists_value (run id [Mount, press ''A'', hover ''D'', hover ''D'', MouseUp] (useDragDrop id abc_de))
     = [[it ''B'', it ''C''], [it ''D'', it ''A'', it ''E'']] \<and>
   lists_value (run id [Mount, press ''A'', hover ''D'', hover ''D'', MouseUp] (useDragDrop id abc_de))
     \<noteq> [[it ''B'', it ''C''], [it ''A'', it ''D'', it ''E'']]"
  by (simp add: scenario_defs js_defs handler_defs)

text \<open>
  C4, amended. Pressing \<open>A\<close> in \<open>[[A, B, C], [D, E]]\<close>, an odd number of moves over \<open>D\<close>
  and the release give \<open>[[B, C], [A, D, E]]\<close>; an even number of moves, two or more, gives
  \<open>[[B, C], [D, A, E]]\<close>. \<open>D\<close> is never overwritten.
\<close>

theorem cross_list_move_by_parity:
  "lists_value (run id ([Mount, press ''A''] @ replicate (2 * n + 1) (hover ''D'') @ [MouseUp])
                  (useDragDrop id abc_de))
     = [[it ''B'', it ''C''], [it ''A'', it ''D'', it ''E'']] \<and>
   lists_value (run id ([Mount, press ''A''] @ replicate (2 * n + 2) (hover ''D'') @ [MouseUp])
                  (useDragDrop id abc_de))
     = [[it ''B'', it ''C''], [it ''D'', it ''A'', it ''E'']]"
proof -
  have start: "run id ([Mount, press ''A''] @ [hover ''D'']) (useDragDrop id abc_de)
      = dragging_A_over_D"
    by (simp add: dragging_A_over_D_def)
  have odd: "run id ([Mount, press ''A''] @ replicate (2 * n + 1) (hover ''D''))
      (useDragDrop id abc_de) = dragging_A_over_D"
  proof -
    have "[Mount, press ''A''] @ replicate (2 * n + 1) (hover ''D'')
        = ([Mount, press ''A''] @ [hover ''D'']) @ replicate (2 * n) (hover ''D'')"
      by simp
    then show ?thesis
      using run_append [of id "[Mount, press ''A''] @ [hover ''D'']"
          "replicate (2 * n) (hover ''D'')" "useDragDrop id abc_de"] start hover_D_even [of n]
      by (simp only:)
  qed
  have even: "run id ([Mount, press ''A''] @ replicate (2 * n + 2) (hover ''D''))
      (useDragDrop id abc_de) = run id [hover ''D''] dragging_A_over_D"
  proof -
    have "[Mount, press ''A''] @ replicate (2 * n + 2) (hover ''D'')
        = ([Mount, press ''A''] @ replicate (2 * n + 1) (hover ''D'')) @ [hover ''D'']"
      by (simp add: replicate_append_same)
    then show ?thesis
      using run_append [of id "[Mount, press ''A''] @ replicate (2 * n + 1) (hover ''D'')"
          "[hover ''D'']" "useDragDrop id abc_de"] odd
      by (simp only:)
  qed
  have up1: "lists_value (run id [MouseUp] dragging_A_over_D)
      = [[it ''B'', it ''C''], [it ''A'', it ''D'', it ''E'']]"
    by (simp add: dragging_A_over_D_value scenario_defs js_defs handler_defs)
  have up2: "lists_value (run id [MouseUp] (run id [hover ''D''] dragging_A_over_D))
      = [[it ''B'', it ''C''], [it ''D'', it ''A'', it ''E'']]"
    by (simp add: dragging_A_over_D_value scenario_defs js_defs handler_defs)
  have "run id ([Mount, press ''A''] @ replicate (2 * n + 1) (hover ''D'') @ [MouseUp])
      (useDragDrop id abc_de) = run id [MouseUp] dragging_A_over_D"
    using run_append [of id "[Mount, press ''A''] @ replicate (2 * n + 1) (hover ''D'')"
        "[MouseUp]" "useDragDrop id abc_de"] odd
    by (simp only: append_assoc)
  moreover have "run id ([Mount, press ''A''] @ replicate (2 * n + 2) (hover ''D'') @ [MouseUp])
      (useDragDrop id abc_de) = run id [MouseUp] (run id [hover ''D''] dragging_A_over_D)"
    using run_append [of id "[Mount, press ''A''] @ replicate (2 * n + 2) (hover ''D'')"
        "[MouseUp]" "useDragDrop id abc_de"] even
    by (simp only: append_assoc)
  ultimately show ?thesis using up1 up2 by (simp only: simp_thms)
qed

subsection \<open>C5: the same-list reorder\<close>

lemma hover_C_twice:
  "run id [hover ''C'', hover ''C''] dragging_A_over_C = dragging_A_over_C"
  by (simp add: dragging_A_over_C_value scenario_defs js_defs handler_defs)

lemma hover_C_even:
  "run id (replicate (2 * n) (hover ''C'')) dragging_A_over_C = dragging_A_over_C"
proof (induction n)
  case 0
  show ?case by simp
next
  case (Suc n)
  have "replicate (2 * Suc n) (hover ''C'')
      = [hover ''C'', hover ''C''] @ replicate (2 * n) (hover ''C'')"
    by simp
  with run_append [of id "[hover ''C'', hover ''C'']" "replicate (2 * n) (hover ''C'')"
      dragging_A_over_C] hover_C_twice Suc.IH
  show ?case by (simp only:)
qed

text \<open>
  C5, as stated, fails: it allows a single move over \<open>C\<close>, which finds \<open>C\<close> at index \<open>1\<close> of
  \<open>[B, C]\<close> and ends in \<open>[[B, A, C]]\<close>.
\<close>

theorem same_list_reorder_one_move:
  "lists_value (run id [Mount, press ''A'', hover ''C'', MouseUp] (useDragDrop id abc))
     = [[it ''B'', it ''A'', it ''C'']] \<and>
   lists_value (run id [Mount, press ''A'', hover ''C'', MouseUp] (useDragDrop id abc))
     \<noteq> [[it ''B'', it ''C'', it ''A'']]"
  by (simp add: scenario_defs js_defs handler_defs)

text \<open>
  C5, amended. Pressing \<open>A\<close> in \<open>[[A, B, C]]\<close>, an even number of moves over \<open>C\<close>, two or
  more, and the release give \<open>[[B, C, A]]\<close>; an odd number of moves gives \<open>[[B, A, C]]\<close>:
  the first move puts \<open>A\<close> into the slot \<open>C\<close> has once \<open>A\<close> is detached, and every further
  move over \<open>C\<close> exchanges the two.
\<close>

theorem same_list_reorder_by_parity:
  "lists_value (run id ([Mount, press ''A''] @ replicate (2 * n + 1) (hover ''C'') @ [MouseUp])
                  (useDragDrop id abc))
     = [[it ''B'', it ''A'', it ''C'']] \<and>
   lists_value (run id ([Mount, press ''A''] @ replicate (2 * n + 2) (hover ''C'') @ [MouseUp])
                  (useDragDrop id abc))
     = [[it ''B'', it ''C'', it ''A'']]"
proof -
  have start: "run id ([Mount, press ''A''] @ [hover ''C'']) (useDragDrop id abc)
      = dragging_A_over_C"
    by (simp add: dragging_A_over_C_def)
  have odd: "run id ([Mount, press ''A''] @ replicate (2 * n + 1) (hover ''C''))
      (useDragDrop id abc) = dragging_A_over_C"
  proof -
    have "[Mount, press ''A''] @ replicate (2 * n + 1) (hover ''C'')
        = ([Mount, press ''A''] @ [hover ''C'']) @ replicate (2 * n) (hover ''C'')"
      by simp
    then show ?thesis
      using run_append [of id "[Mount, press ''A''] @ [hover ''C'']"
          "replicate (2 * n) (hover ''C'')" "useDragDrop id abc"] start hover_C_even [of n]
      by (simp only:)
  qed
  have even: "run id ([Mount, press ''A''] @ replicate (2 * n + 2) (hover ''C''))
      (useDragDrop id abc) = run id [hover ''C''] dragging_A_over_C"
  proof -
    have "[Mount, press ''A''] @ replicate (2 * n + 2) (hover ''C'')
        = ([Mount, press ''A''] @ replicate (2 * n + 1) (hover ''C'')) @ [hover ''C'']"
      by (simp add: replicate_append_same)
    then show ?thesis
      using run_append [of id "[Mount, press ''A''] @ replicate (2 * n + 1) (hover ''C'')"
          "[hover ''C'']" "useDragDrop id abc"] odd
      by (simp only:)
  qed
  have up1: "lists_value (run id [MouseUp] dragging_A_over_C)
      = [[it ''B'', it ''A'', it ''C'']]"
    by (simp add: dragging_A_over_C_value scenario_defs js_defs handler_defs)
  have up2: "lists_value (run id [MouseUp] (run id [hover ''C''] dragging_A_over_C))
      = [[it ''B'', it ''C'', it ''A'']]"
    by (simp add: dragging_A_over_C_value scenario_defs js_defs handler_defs)
  have "run id ([Mount, press ''A''] @ replicate (2 * n + 1) (hover ''C'') @ [MouseUp])
      (useDragDrop id abc) = run id [MouseUp] dragging_A_over_C"
    using run_append [of id "[Mount, press ''A''] @ replicate (2 * n + 1) (hover ''C'')"
        "[MouseUp]" "useDragDrop id abc"] odd
    by (simp only: append_assoc)
  moreover have "run id ([Mount, press ''A''] @ replicate (2 * n + 2) (hover ''C'') @ [MouseUp])
      (useDragDrop id abc) = run id [MouseUp] (run id [hover ''C''] dragging_A_over_C)"
    using run_append [of id "[Mount, press ''A''] @ replicate (2 * n + 2) (hover ''C'')"
        "[MouseUp]" "useDragDrop id abc"] even
    by (simp only: append_assoc)
  ultimately show ?thesis using up1 up2 by (simp only: simp_thms)
qed

end
